theory Spec2Isabelle
  imports Main "HOL-Library.Word"
begin

unbundle bit_operations_syntax

section \<open>The chardev module: a character device with a blocking read\<close>

text \<open>
  The embedding follows \<^verbatim>\<open>userasync/devicefile/chardev.c\<close>. Module globals are
  the fields of the record \<open>sys\<close>; every file operation is a function on that record.
  A blocking \<^verbatim>\<open>read()\<close> is not one function call of the model: it is cut at the
  places where it touches the shared \<^verbatim>\<open>counter\<close> or the wait queue, so that timer
  callbacks and other readers can run in between.
\<close>

subsection \<open>Constants of the kernel headers\<close>

text \<open>Error numbers of \<^verbatim>\<open>asm-generic/errno-base.h\<close>.\<close>

definition EPERM :: int where "EPERM = 1"
definition EAGAIN :: int where "EAGAIN = 11"
definition ENOMEM :: int where "ENOMEM = 12"
definition EFAULT :: int where "EFAULT = 14"
definition ENOTTY :: int where "ENOTTY = 25"

text \<open>\<^verbatim>\<open>O_NONBLOCK\<close> is octal 04000 in \<^verbatim>\<open>asm-generic/fcntl.h\<close>.\<close>

definition O_NONBLOCK :: "32 word" where "O_NONBLOCK = 0x800"

type_synonym ulong = "64 word"
type_synonym dev_t = "32 word"

text \<open>\<^verbatim>\<open>MKDEV\<close> and \<^verbatim>\<open>MAJOR\<close> of \<^verbatim>\<open>linux/kdev_t.h\<close> (20 minor bits).\<close>

definition MKDEV :: "int \<Rightarrow> int \<Rightarrow> dev_t" where
  "MKDEV ma mi = push_bit 20 (word_of_int ma) OR word_of_int mi"

definition MAJOR :: "dev_t \<Rightarrow> int" where
  "MAJOR dev = uint (drop_bit 20 dev)"

text \<open>A kernel pointer result: \<^verbatim>\<open>NULL\<close>, an \<^verbatim>\<open>ERR_PTR\<close> value, or a live object.\<close>

datatype kptr = NULL | ERR_PTR int | PTR

fun IS_ERR :: "kptr \<Rightarrow> bool" where
  "IS_ERR (ERR_PTR e) = True"
| "IS_ERR p = False"

subsection \<open>Data\<close>

datatype callback = No_function | Timer_func

record timer_list =
  expires :: ulong
  data :: ulong
  callback :: callback
  pending :: bool

record chardev =
  minor :: int
  status :: int
  device :: kptr

record "file" =
  f_flags :: "32 word"

text \<open>
  Program points of \<^verbatim>\<open>chardev_read\<close>, named by the source line that runs next:
  \<open>L59\<close> the loop test \<^verbatim>\<open>atomic_read(&counter) == 0\<close> (with the \<^verbatim>\<open>O_NONBLOCK\<close>
  test of line 60, which reads no shared state), \<open>L63\<close> the condition test of
  \<^verbatim>\<open>wait_event_interruptible\<close>, \<open>Asleep\<close> the task parked on \<^verbatim>\<open>queue\<close>,
  \<open>L67\<close> the \<^verbatim>\<open>copy_to_user\<close>, \<open>L70\<close> the \<^verbatim>\<open>atomic_set(&counter, 0)\<close>, and
  \<open>Ret v\<close> the call returned \<open>v\<close>.
\<close>

datatype pc = L59 | L63 | Asleep | L67 | L70 | Ret int

text \<open>
  One invocation of \<^verbatim>\<open>chardev_read(filp, buf, count, offp)\<close>. \<open>buf\<close> is the writable
  user memory that starts at the pointer \<^verbatim>\<open>buf\<close> (the empty list for a bad pointer);
  \<open>offp\<close> is the value \<^verbatim>\<open>*offp\<close>; \<open>sigpending\<close> says a signal is pending for the
  calling task.
\<close>

record reader =
  pc :: pc
  filp :: "file"
  buf :: "8 word list"
  count :: "64 word"
  offp :: "64 word"
  sigpending :: bool

text \<open>Calls into the kernel's device registry, kept as a trace.\<close>

datatype kcall =
    Register_chrdev_region dev_t
  | Alloc_chrdev_region int
  | Class_create
  | Device_create dev_t
  | Cdev_add dev_t
  | Cdev_del
  | Device_destroy dev_t
  | Class_destroy
  | Unregister_chrdev_region dev_t
  | Kfree

text \<open>
  The module's globals. \<open>readers\<close> holds every invocation of \<^verbatim>\<open>chardev_read\<close>, in
  flight or returned; the ones at \<open>Asleep\<close> are the entries of the wait queue
  \<^verbatim>\<open>queue\<close>.
\<close>

record sys =
  chardev_major :: int
  chardev_class :: kptr
  read_timer :: timer_list
  counter :: int
  d :: "chardev option"
  readers :: "reader list"
  klog :: "kcall list"

text \<open>The globals as the loader leaves them: zero-initialised.\<close>

definition boot :: sys where
  "boot = \<lparr>chardev_major = 0, chardev_class = NULL,
           read_timer = \<lparr>expires = 0, data = 0, callback = No_function, pending = False\<rparr>,
           counter = 0, d = None, readers = [], klog = []\<rparr>"

subsection \<open>The timer callback\<close>

text \<open>
  \<^verbatim>\<open>wake_up_interruptible(&queue)\<close>: the entries of \<^verbatim>\<open>queue\<close> are not exclusive, so
  every sleeper is made runnable; it then tests its wait condition again.
\<close>

definition wake :: "reader \<Rightarrow> reader" where
  "wake r = (if pc r = Asleep then r\<lparr>pc := L63\<rparr> else r)"

definition wake_up_interruptible :: "sys \<Rightarrow> sys" where
  "wake_up_interruptible s = s\<lparr>readers := map wake (readers s)\<rparr>"

definition add_timer :: "sys \<Rightarrow> sys" where
  "add_timer s = s\<lparr>read_timer := (read_timer s)\<lparr>pending := True\<rparr>\<rparr>"

definition del_timer :: "sys \<Rightarrow> sys" where
  "del_timer s = s\<lparr>read_timer := (read_timer s)\<lparr>pending := False\<rparr>\<rparr>"

text \<open>
  \<^verbatim>\<open>timer_func\<close>, lines 45 to 52. \<open>hz\<close> is the kernel's \<^verbatim>\<open>HZ\<close> and \<open>jiffies\<close> the
  tick count when the callback runs. The callback runs in softirq context and is taken
  as one action.
\<close>

definition timer_func :: "int \<Rightarrow> ulong \<Rightarrow> sys \<Rightarrow> sys" where
  "timer_func hz jiffies s =
     (let s1 = s\<lparr>counter := 1\<rparr>;
          s2 = s1\<lparr>read_timer := (read_timer s1)\<lparr>expires := jiffies + word_of_int (hz * 5)\<rparr>\<rparr>;
          s3 = add_timer s2
      in wake_up_interruptible s3)"

subsection \<open>The file operations\<close>

text \<open>
  \<^verbatim>\<open>copy_to_user(to, from, n)\<close>: writes as many of the \<open>n\<close> bytes as the destination
  has writable room for and returns the number of bytes it could not copy.
\<close>

definition copy_to_user :: "8 word list \<Rightarrow> 8 word list \<Rightarrow> nat \<Rightarrow> 8 word list \<times> nat" where
  "copy_to_user to from n =
     (let k = min n (length to) in (take k from @ drop k to, n - k))"

text \<open>The bytes of the string literal \<^verbatim>\<open>"test"\<close>.\<close>

definition test :: "8 word list" where
  "test = map (\<lambda>c. of_nat (of_char c)) ''test''"

text \<open>
  \<^verbatim>\<open>chardev_read\<close>, lines 54 to 73: the action at the invocation's program point,
  from the value of \<^verbatim>\<open>counter\<close> to its new value and the invocation's new state.
  \<^verbatim>\<open>count\<close> and \<^verbatim>\<open>offp\<close> are never read. The result of
  \<^verbatim>\<open>wait_event_interruptible\<close> is discarded by the source, so a pending signal sends
  the call back to the loop test instead of out of the function.
\<close>

fun chardev_read :: "int \<Rightarrow> reader \<Rightarrow> int \<times> reader" where
  "chardev_read c r =
     (case pc r of
        L59 \<Rightarrow>
          if c = 0 then
            (if f_flags (filp r) AND O_NONBLOCK \<noteq> 0 then (c, r\<lparr>pc := Ret (- EAGAIN)\<rparr>)
             else (c, r\<lparr>pc := L63\<rparr>))
          else (c, r\<lparr>pc := L67\<rparr>)
      | L63 \<Rightarrow>
          if c = 1 then (c, r\<lparr>pc := L59\<rparr>)
          else if sigpending r then (c, r\<lparr>pc := L59\<rparr>)
          else (c, r\<lparr>pc := Asleep\<rparr>)
      | Asleep \<Rightarrow> (c, r)
      | L67 \<Rightarrow>
          (case copy_to_user (buf r) test 4 of
             (b, left) \<Rightarrow>
               if left \<noteq> 0 then (c, r\<lparr>buf := b, pc := Ret (- EFAULT)\<rparr>)
               else (c, r\<lparr>buf := b, pc := L70\<rparr>))
      | L70 \<Rightarrow> (0, r\<lparr>pc := Ret 4\<rparr>)
      | Ret v \<Rightarrow> (c, r))"

text \<open>\<^verbatim>\<open>chardev_write\<close>, lines 75 to 79.\<close>

definition chardev_write :: "sys \<Rightarrow> file \<Rightarrow> 8 word list \<Rightarrow> 64 word \<Rightarrow> 64 word \<Rightarrow> sys \<times> int" where
  "chardev_write s f ubuf cnt off = (s, - EPERM)"

text \<open>\<^verbatim>\<open>chardev_ioctl\<close>, lines 97 to 101.\<close>

definition chardev_ioctl :: "sys \<Rightarrow> file \<Rightarrow> 32 word \<Rightarrow> ulong \<Rightarrow> sys \<times> int" where
  "chardev_ioctl s f cmd arg = (s, - ENOTTY)"

subsection \<open>Module start and teardown\<close>

text \<open>
  What the kernel answers during \<^verbatim>\<open>chardev_init\<close>: whether \<^verbatim>\<open>kmalloc\<close> returned
  memory, the result of \<^verbatim>\<open>register_chrdev_region\<close> or \<^verbatim>\<open>alloc_chrdev_region\<close>
  and the device number the latter stored, and the results of \<^verbatim>\<open>class_create\<close>,
  \<^verbatim>\<open>device_create\<close> and \<^verbatim>\<open>cdev_add\<close>.
\<close>

record init_env =
  kmalloc_ok :: bool
  region_ret :: int
  region_dev :: dev_t
  class_create_res :: kptr
  device_create_res :: kptr
  cdev_add_ret :: int

definition kcalled :: "kcall \<Rightarrow> sys \<Rightarrow> sys" where
  "kcalled k s = s\<lparr>klog := klog s @ [k]\<rparr>"

definition upd_d :: "(chardev \<Rightarrow> chardev) \<Rightarrow> sys \<Rightarrow> sys" where
  "upd_d f s = s\<lparr>d := map_option f (d s)\<rparr>"

text \<open>The unwinding labels of \<^verbatim>\<open>chardev_init\<close>, lines 189 to 200.\<close>

definition err1 :: "sys \<Rightarrow> int \<Rightarrow> sys \<times> int" where
  "err1 s ret = (if d s \<noteq> None then (kcalled Kfree s, ret) else (s, ret))"

definition err2 :: "dev_t \<Rightarrow> sys \<Rightarrow> int \<Rightarrow> sys \<times> int" where
  "err2 dev s ret = err1 (kcalled (Unregister_chrdev_region dev) s) ret"

definition err3 :: "dev_t \<Rightarrow> sys \<Rightarrow> int \<Rightarrow> sys \<times> int" where
  "err3 dev s ret = err2 dev (kcalled Class_destroy s) ret"

definition err4 :: "dev_t \<Rightarrow> sys \<Rightarrow> int \<Rightarrow> sys \<times> int" where
  "err4 dev s ret = err3 dev (kcalled (Device_destroy dev) s) ret"

text \<open>
  \<^verbatim>\<open>chardev_init\<close>, lines 112 to 201, taken as one action. \<^verbatim>\<open>d->device\<close> is not
  initialised by \<^verbatim>\<open>kmalloc\<close>; it is written at line 155 before anything reads it and
  starts as \<open>NULL\<close> here.
\<close>

definition chardev_init :: "int \<Rightarrow> ulong \<Rightarrow> init_env \<Rightarrow> sys \<Rightarrow> sys \<times> int" where
  "chardev_init hz jiffies env s =
     (if \<not> kmalloc_ok env then (s\<lparr>d := None\<rparr>, - ENOMEM)
      else
        let s1 = s\<lparr>d := Some \<lparr>minor = 0, status = 0, device = NULL\<rparr>\<rparr>;
            dev = (if chardev_major s1 > 0 then MKDEV (chardev_major s1) 0 else region_dev env);
            s2 = (if chardev_major s1 > 0 then kcalled (Register_chrdev_region dev) s1
                  else (kcalled (Alloc_chrdev_region 0) s1)\<lparr>chardev_major := MAJOR dev\<rparr>);
            ret = region_ret env
        in
          if ret < 0 then err1 s2 ret
          else
            let s3 = (kcalled Class_create s2)\<lparr>chardev_class := class_create_res env\<rparr>
            in
              if IS_ERR (chardev_class s3) then err2 dev (s3\<lparr>chardev_class := NULL\<rparr>) (- ENOMEM)
              else
                let s4 = upd_d (\<lambda>c. c\<lparr>device := device_create_res env\<rparr>)
                           (kcalled (Device_create dev) s3)
                in
                  if IS_ERR (device_create_res env) then err3 dev s4 (- ENOMEM)
                  else
                    let s5 = kcalled (Cdev_add dev) s4;
                        ret = cdev_add_ret env
                    in
                      if ret < 0 then err4 dev (upd_d (\<lambda>c. c\<lparr>status := 0\<rparr>) s5) ret
                      else
                        let s6 = upd_d (\<lambda>c. c\<lparr>status := 1\<rparr>) s5;
                            s7 = s6\<lparr>counter := 1\<rparr>;
                            s8 = s7\<lparr>read_timer :=
                                      \<lparr>expires = jiffies + word_of_int (hz * 5),
                                       data = jiffies,
                                       callback = Timer_func,
                                       pending = False\<rparr>\<rparr>
                        in (add_timer s8, 0))"

text \<open>
  \<^verbatim>\<open>chardev_exit\<close>, lines 203 to 233. It dereferences \<^verbatim>\<open>d\<close>; the result is
  \<open>None\<close> where \<^verbatim>\<open>d\<close> is \<^verbatim>\<open>NULL\<close>.
\<close>

definition chardev_exit :: "sys \<Rightarrow> sys option" where
  "chardev_exit s =
     (let s1 = del_timer s
      in case d s1 of
           None \<Rightarrow> None
         | Some c \<Rightarrow>
             let s2 = (if status c = 1 then kcalled Cdev_del s1 else s1);
                 dev = MKDEV (chardev_major s2) (minor c);
                 s3 = (if \<not> IS_ERR (device c) \<and> device c \<noteq> NULL
                       then upd_d (\<lambda>c. c\<lparr>device := NULL\<rparr>) (kcalled (Device_destroy dev) s2)
                       else s2);
                 s4 = (if chardev_major s3 > 0 then kcalled (Unregister_chrdev_region dev) s3
                       else s3);
                 s5 = (if \<not> IS_ERR (chardev_class s4) \<and> chardev_class s4 \<noteq> NULL
                       then (kcalled Class_destroy s4)\<lparr>chardev_class := NULL\<rparr>
                       else s4)
             in Some s5)"

subsection \<open>Executions\<close>

text \<open>
  What can happen to a started device: the timer expires at tick \<open>jiffies\<close>
  (\<open>Fire\<close>); a task enters \<^verbatim>\<open>chardev_read\<close> with its arguments (\<open>Enter\<close>); invocation
  \<open>i\<close> performs the action at its program point (\<open>Step\<close>); a signal is sent to the task
  of invocation \<open>i\<close> (\<open>Signal\<close>); the module is unloaded (\<open>Unload\<close>).
  The schedules do not restrict \<open>Enter\<close>: a read entered after the unload stands for
  nothing the kernel allows, and the properties below hold of those schedules as well.
\<close>

datatype event =
    Fire ulong
  | Enter "file" "8 word list" "64 word" "64 word"
  | Step nat
  | Signal nat
  | Unload

definition runnable :: "pc \<Rightarrow> bool" where
  "runnable p = (case p of Asleep \<Rightarrow> False | Ret v \<Rightarrow> False | _ \<Rightarrow> True)"

text \<open>Reads that have been entered and have not returned.\<close>

definition live :: "reader \<Rightarrow> nat" where
  "live r = (case pc r of Ret v \<Rightarrow> 0 | _ \<Rightarrow> 1)"

definition in_flight :: "sys \<Rightarrow> nat" where
  "in_flight s = sum_list (map live (readers s))"

text \<open>A signal marks the task and, like a wake-up, makes a sleeper runnable.\<close>

definition signal :: "reader \<Rightarrow> reader" where
  "signal r = wake (r\<lparr>sigpending := True\<rparr>)"

text \<open>
  One event. \<open>None\<close> means the event cannot happen in this state: the kernel runs the
  callback of a pending timer only (and takes the timer off its list before the call),
  and a parked or returned invocation has no action. The module is unloaded only while
  no read is in flight: \<^verbatim>\<open>.owner = THIS_MODULE\<close> (lines 104 and 166) has the kernel hold a
  reference on the module for every open file and refuse the unload meanwhile, and a
  read in flight has its file open.
\<close>

fun step :: "int \<Rightarrow> sys \<Rightarrow> event \<Rightarrow> sys option" where
  "step hz s (Fire jiffies) =
     (if pending (read_timer s) then Some (timer_func hz jiffies (del_timer s)) else None)"
| "step hz s (Enter f b n off) =
     Some (s\<lparr>readers := readers s @
             [\<lparr>pc = L59, filp = f, buf = b, count = n, offp = off, sigpending = False\<rparr>]\<rparr>)"
| "step hz s (Step i) =
     (if i < length (readers s) \<and> runnable (pc (readers s ! i)) then
        (case chardev_read (counter s) (readers s ! i) of
           (c, r) \<Rightarrow> Some (s\<lparr>counter := c, readers := (readers s)[i := r]\<rparr>))
      else None)"
| "step hz s (Signal i) =
     (if i < length (readers s) then Some (s\<lparr>readers := (readers s)[i := signal (readers s ! i)]\<rparr>)
      else None)"
| "step hz s Unload = (if in_flight s = 0 then chardev_exit s else None)"

fun exec :: "int \<Rightarrow> event list \<Rightarrow> sys \<Rightarrow> sys option" where
  "exec hz [] s = Some s"
| "exec hz (e # es) s = (case step hz s e of None \<Rightarrow> None | Some s' \<Rightarrow> exec hz es s')"

text \<open>Counting: timer fires in a schedule, reads that returned 4.\<close>

definition fires :: "event list \<Rightarrow> nat" where
  "fires es = length (filter (\<lambda>e. case e of Fire j \<Rightarrow> True | _ \<Rightarrow> False) es)"

definition succeeded :: "reader \<Rightarrow> nat" where
  "succeeded r = (if pc r = Ret 4 then 1 else 0)"

definition successes :: "sys \<Rightarrow> nat" where
  "successes s = sum_list (map succeeded (readers s))"

text \<open>
  Module exit while the timer callback is in flight. The kernel expires a timer in two
  parts: it takes the timer off its list, then calls the callback without holding the
  timer's lock; \<open>step\<close> takes the two as one action. Here the module is unloaded, on
  another processor, between the two: \<^verbatim>\<open>del_timer\<close> (line 208) finds no pending timer
  and, unlike \<^verbatim>\<open>del_timer_sync\<close>, does not wait for the running callback, which then
  runs lines 47 to 51.
\<close>

definition exit_during_callback :: "int \<Rightarrow> ulong \<Rightarrow> sys \<Rightarrow> sys option" where
  "exit_during_callback hz jiffies s =
     (if pending (read_timer s)
      then map_option (timer_func hz jiffies) (step hz (del_timer s) Unload)
      else None)"

subsection \<open>The consumer's registration call\<close>

text \<open>
  \<^verbatim>\<open>userasync/signals/client.c\<close>, lines 49 to 53: the consumer's
  \<^verbatim>\<open>ioctl(fd, PROCESS_ID, (unsigned long)pid)\<close> as it arrives at the device.
  \<^verbatim>\<open>PROCESS_ID\<close> comes from \<^verbatim>\<open>ioctl.h\<close>, which is not among the sources, and is a
  parameter; \<^verbatim>\<open>pid_t\<close> is a signed 32-bit integer.
\<close>

definition client_register :: "sys \<Rightarrow> file \<Rightarrow> 32 word \<Rightarrow> 32 word \<Rightarrow> sys \<times> int" where
  "client_register s f process_id pid = chardev_ioctl s f process_id (scast pid)"

subsection \<open>Quantities used in the statements\<close>

text \<open>An invocation that has left the loop and not yet returned.\<close>

definition committed :: "reader \<Rightarrow> nat" where
  "committed r = (if pc r = L67 \<or> pc r = L70 then 1 else 0)"

definition holders :: "sys \<Rightarrow> nat" where
  "holders s = sum_list (map committed (readers s))"

text \<open>
  A schedule in which, in every state it passes through, at most one invocation is
  between its loop test having found the flag set (line 59) and its return (lines 67 to
  72). Any number of reads may be in flight, and timer fires and signals may come at any
  point.
\<close>

fun exclusive :: "int \<Rightarrow> event list \<Rightarrow> sys \<Rightarrow> bool" where
  "exclusive hz [] s = (holders s \<le> 1)"
| "exclusive hz (e # es) s =
     (holders s \<le> 1 \<and>
      (case step hz s e of None \<Rightarrow> False | Some s' \<Rightarrow> exclusive hz es s'))"

definition ready :: "sys \<Rightarrow> nat" where
  "ready s = (if counter s = 0 then 0 else 1)"

text \<open>
  Reads that have succeeded, plus the one that the present readiness can still yield
  when reads do not overlap.
\<close>

definition claimable :: "sys \<Rightarrow> nat" where
  "claimable s = successes s + max (holders s) (ready s)"

text \<open>The arguments of the \<^verbatim>\<open>read()\<close> calls of a schedule, in order of entry.\<close>

type_synonym read_args = "file \<times> 8 word list \<times> 64 word \<times> 64 word"

fun entered :: "event list \<Rightarrow> read_args list" where
  "entered [] = []"
| "entered (Enter f b n off # es) = (f, b, n, off) # entered es"
| "entered (e # es) = entered es"

text \<open>
  What an invocation looks like given the arguments it was entered with: the arguments
  are as passed, and the user buffer is untouched until the copy, holds the payload
  after a full copy, and holds a prefix of it after a faulting one.
\<close>

definition tracks :: "read_args \<Rightarrow> reader \<Rightarrow> bool" where
  "tracks a r =
     (case a of (f, b, n, off) \<Rightarrow>
        filp r = f \<and> count r = n \<and> offp r = off \<and>
        (case pc r of
           L70 \<Rightarrow> 4 \<le> length b \<and> buf r = test @ drop 4 b
         | Ret v \<Rightarrow>
             (v = 4 \<and> 4 \<le> length b \<and> buf r = test @ drop 4 b) \<or>
             (v = - EAGAIN \<and> buf r = b) \<or>
             (v = - EFAULT \<and> length b < 4 \<and> buf r = take (length b) test)
         | _ \<Rightarrow> buf r = b))"

text \<open>
  The same invocation, state and schedule with every byte count and every offset
  replaced by 0.
\<close>

definition erase_reader :: "reader \<Rightarrow> reader" where
  "erase_reader r = r\<lparr>count := 0, offp := 0\<rparr>"

definition erase :: "sys \<Rightarrow> sys" where
  "erase s = s\<lparr>readers := map erase_reader (readers s)\<rparr>"

fun erase_ev :: "event \<Rightarrow> event" where
  "erase_ev (Enter f b n off) = Enter f b 0 0"
| "erase_ev e = e"

definition pcs :: "sys \<Rightarrow> pc list" where
  "pcs s = map pc (readers s)"

subsection \<open>A concrete device and concrete schedules\<close>

definition env0 :: init_env where
  "env0 = \<lparr>kmalloc_ok = True, region_ret = 0, region_dev = MKDEV 250 0,
           class_create_res = PTR, device_create_res = PTR, cdev_add_ret = 0\<rparr>"

text \<open>The device after a successful start at tick 1000 with \<^verbatim>\<open>HZ\<close> = 250.\<close>

definition started :: sys where
  "started = fst (chardev_init 250 1000 env0 boot)"

definition blocking :: "file" where
  "blocking = \<lparr>f_flags = 0\<rparr>"

definition nonblocking :: "file" where
  "nonblocking = \<lparr>f_flags = O_NONBLOCK\<rparr>"

text \<open>The consumer's \<^verbatim>\<open>char buf[5]\<close>, zeroed.\<close>

definition buf5 :: "8 word list" where
  "buf5 = [0, 0, 0, 0, 0]"

text \<open>One read that runs to completion.\<close>

definition one_read :: "event list" where
  "one_read = [Enter blocking buf5 5 0, Step 0, Step 0, Step 0]"

text \<open>
  Two reads that both test \<^verbatim>\<open>counter\<close> before either clears it; the timer never
  fires.
\<close>

definition race :: "event list" where
  "race = [Enter blocking buf5 5 0, Enter blocking buf5 5 0,
           Step 0, Step 1, Step 0, Step 1, Step 0, Step 1]"

text \<open>
  A first read takes the initial readiness; two more reads go to sleep together; one
  timer fire wakes both; the first of them takes the readiness and returns, the second
  finds the flag cleared and sleeps again.
\<close>

definition two_asleep :: "event list" where
  "two_asleep = one_read @
     [Enter blocking buf5 5 0, Enter blocking buf5 5 0, Step 1, Step 1, Step 2, Step 2]"

definition two_waiters :: "event list" where
  "two_waiters = two_asleep @
     [Fire 2250, Step 1, Step 2, Step 1, Step 1, Step 1, Step 2, Step 2]"

text \<open>A read that asks for one byte at offset 7, and one that asks for 4096 bytes.\<close>

definition short_request :: "event list" where
  "short_request = [Enter blocking buf5 1 7, Step 0, Step 0, Step 0]"

definition long_request :: "event list" where
  "long_request = [Enter nonblocking buf5 4096 7, Step 0, Step 0, Step 0]"

text \<open>A first read takes the initial readiness; a second, blocking one goes to sleep.\<close>

definition park :: "event list" where
  "park = one_read @ [Enter blocking buf5 5 0, Step 1, Step 1]"

definition parked :: sys where
  "parked = (case exec 250 park started of Some s \<Rightarrow> s | None \<Rightarrow> started)"

section \<open>Properties\<close>

subsection \<open>Evaluation of the concrete scenarios\<close>

lemmas model_defs =
  chardev_init_def chardev_exit_def timer_func_def wake_up_interruptible_def wake_def
  signal_def add_timer_def del_timer_def kcalled_def upd_d_def copy_to_user_def
  runnable_def exit_during_callback_def MKDEV_def MAJOR_def Let_def

lemmas scenario_defs =
  env0_def boot_def started_def blocking_def nonblocking_def buf5_def one_read_def race_def
  two_asleep_def two_waiters_def park_def parked_def short_request_def long_request_def test_def

lemmas count_defs =
  successes_def succeeded_def holders_def committed_def in_flight_def live_def fires_def
  pcs_def

lemmas errno_defs = EPERM_def EAGAIN_def ENOMEM_def EFAULT_def ENOTTY_def O_NONBLOCK_def

lemma test_bytes: "test = [0x74, 0x65, 0x73, 0x74]"
  by (simp add: test_def)

lemma length_test [simp]: "length test = 4"
  by (simp add: test_def)

lemma started_ok: "chardev_init 250 1000 env0 boot = (started, 0)"
  by (simp add: scenario_defs model_defs errno_defs)

subsection \<open>Start and teardown\<close>

lemma chardev_init_ok:
  assumes "chardev_init hz j env s = (s', 0)"
  shows "counter s' = 1 \<and> pending (read_timer s') \<and>
         expires (read_timer s') = j + word_of_int (hz * 5) \<and> readers s' = readers s"
  using assms
  by (auto simp: chardev_init_def Let_def err1_def err2_def err3_def err4_def kcalled_def
        upd_d_def add_timer_def ENOMEM_def split: if_splits)

lemma chardev_exit_same:
  assumes "chardev_exit s = Some s'"
  shows "readers s' = readers s \<and> counter s' = counter s \<and> \<not> pending (read_timer s')"
  using assms
  by (auto simp: chardev_exit_def Let_def del_timer_def kcalled_def upd_d_def
        split: option.splits if_splits)

lemma timer_func_fields:
  "counter (timer_func hz j s) = 1"
  "pending (read_timer (timer_func hz j s))"
  "expires (read_timer (timer_func hz j s)) = j + word_of_int (hz * 5)"
  "readers (timer_func hz j s) = map wake (readers s)"
  by (simp_all add: timer_func_def Let_def wake_up_interruptible_def add_timer_def)

lemma step_Fire:
  assumes "step hz s (Fire j) = Some s'"
  shows "s' = timer_func hz j (del_timer s)"
  using assms by (simp split: if_splits)

lemma step_Step:
  assumes "step hz s (Step i) = Some s'"
  obtains c r where "i < length (readers s)" "runnable (pc (readers s ! i))"
    "chardev_read (counter s) (readers s ! i) = (c, r)"
    "s' = s\<lparr>counter := c, readers := (readers s)[i := r]\<rparr>"
  using assms by (auto split: if_splits prod.splits)

lemma step_Signal:
  assumes "step hz s (Signal i) = Some s'"
  shows "i < length (readers s) \<and> s' = s\<lparr>readers := (readers s)[i := signal (readers s ! i)]\<rparr>"
  using assms by (auto split: if_splits)

lemma step_Unload:
  assumes "step hz s Unload = Some s'"
  shows "in_flight s = 0 \<and> readers s' = readers s \<and> counter s' = counter s \<and>
         \<not> pending (read_timer s')"
proof -
  from assms have "in_flight s = 0" "chardev_exit s = Some s'"
    by (simp_all split: if_splits)
  with chardev_exit_same[of s s'] show ?thesis by simp
qed

subsection \<open>The flag has two values\<close>

lemma step_counter01:
  assumes "step hz s e = Some s'" "counter s = 0 \<or> counter s = 1"
  shows "counter s' = 0 \<or> counter s' = 1"
proof (cases e)
  case (Fire j)
  from assms(1)[unfolded Fire] have "s' = timer_func hz j (del_timer s)" by (rule step_Fire)
  with assms Fire show ?thesis by (simp add: timer_func_fields del_timer_def)
next
  case (Enter f b n off)
  with assms show ?thesis by auto
next
  case (Step i)
  with assms show ?thesis
    by (auto simp: Let_def split: if_splits pc.splits prod.splits)
next
  case (Signal i)
  with assms show ?thesis by (auto split: if_splits)
next
  case Unload
  with assms(1) have "step hz s Unload = Some s'" by simp
  from step_Unload[OF this] assms show ?thesis by simp
qed

lemma exec_counter01:
  "exec hz es s = Some s' \<Longrightarrow> counter s = 0 \<or> counter s = 1 \<Longrightarrow> counter s' = 0 \<or> counter s' = 1"
proof (induction es arbitrary: s)
  case Nil
  then show ?case by simp
next
  case (Cons e es)
  then obtain s1 where s1: "step hz s e = Some s1" "exec hz es s1 = Some s'"
    by (auto split: option.splits)
  from step_counter01[OF s1(1) Cons.prems(2)] Cons.IH[OF s1(2)] show ?case by blast
qed

lemma step_counter_change:
  assumes "step hz s e = Some s'" "counter s = 0 \<or> counter s = 1" "counter s' \<noteq> counter s"
  shows "(\<exists>t. e = Fire t \<and> counter s = 0 \<and> counter s' = 1) \<or>
         (\<exists>i. e = Step i \<and> counter s = 1 \<and> counter s' = 0 \<and>
              pc (readers s ! i) = L70 \<and> pc (readers s' ! i) = Ret 4)"
proof (cases e)
  case (Fire j)
  from assms(1)[unfolded Fire] have "s' = timer_func hz j (del_timer s)" by (rule step_Fire)
  with assms Fire show ?thesis by (simp add: timer_func_fields del_timer_def)
next
  case (Enter f b n off)
  with assms show ?thesis by auto
next
  case (Step i)
  with assms show ?thesis
    by (auto simp: Let_def split: if_splits pc.splits prod.splits)
next
  case (Signal i)
  with assms show ?thesis by (auto split: if_splits)
next
  case Unload
  with assms(1) have "step hz s Unload = Some s'" by simp
  from step_Unload[OF this] assms show ?thesis by simp
qed

subsection \<open>Counting successful reads\<close>

lemma sum_list_map_update:
  fixes w :: "'a \<Rightarrow> nat"
  shows "i < length xs \<Longrightarrow> sum_list (map w (xs[i := y])) + w (xs ! i) = sum_list (map w xs) + w y"
proof (induction xs arbitrary: i)
  case Nil
  then show ?case by simp
next
  case (Cons x xs)
  then show ?case by (cases i) auto
qed

lemma wake_weights [simp]:
  "succeeded (wake r) = succeeded r" "committed (wake r) = committed r"
  by (auto simp: wake_def succeeded_def committed_def)

lemma signal_weights [simp]:
  "succeeded (signal r) = succeeded r" "committed (signal r) = committed r"
  by (auto simp: signal_def wake_def succeeded_def committed_def)

lemma timer_func_counts:
  "successes (timer_func hz j s) = successes s"
  "holders (timer_func hz j s) = holders s"
  by (simp_all add: timer_func_fields successes_def holders_def comp_def)

lemma del_timer_counts [simp]:
  "successes (del_timer s) = successes s"
  "holders (del_timer s) = holders s"
  by (simp_all add: del_timer_def successes_def holders_def)

lemma claimable_fire:
  assumes "step hz s (Fire j) = Some s'" "holders s' \<le> 1"
  shows "claimable s' \<le> claimable s + 1"
proof -
  have s': "s' = timer_func hz j (del_timer s)" using assms(1) by (rule step_Fire)
  have "successes s' = successes s" "ready s' = 1"
    by (simp_all add: s' timer_func_counts timer_func_fields ready_def)
  with assms(2) show ?thesis by (simp add: claimable_def)
qed

lemma claimable_read:
  assumes "step hz s (Step i) = Some s'" "holders s' \<le> 1"
  shows "claimable s' \<le> claimable s"
proof -
  let ?r = "readers s ! i"
  from assms(1) obtain c r where i: "i < length (readers s)"
    and cr: "chardev_read (counter s) ?r = (c, r)"
    and s': "s' = s\<lparr>counter := c, readers := (readers s)[i := r]\<rparr>"
    by (rule step_Step)
  have su: "successes s' + succeeded ?r = successes s + succeeded r"
    using sum_list_map_update[OF i, of succeeded r] by (simp add: s' successes_def)
  have ho: "holders s' + committed ?r = holders s + committed r"
    using sum_list_map_update[OF i, of committed r] by (simp add: s' holders_def)
  note h1 = assms(2)
  have c: "counter s' = c" by (simp add: s')
  show ?thesis
  proof (cases "pc ?r")
    case L59
    with cr su ho h1 c show ?thesis
      by (auto simp: claimable_def ready_def succeeded_def committed_def EAGAIN_def
            split: if_splits)
  next
    case L67
    with cr su ho h1 c show ?thesis
      by (auto simp: claimable_def ready_def succeeded_def committed_def EFAULT_def
            split: if_splits prod.splits)
  qed (use cr su ho h1 c in
        \<open>auto simp: claimable_def ready_def succeeded_def committed_def split: if_splits\<close>)
qed

lemma claimable_step:
  assumes "step hz s e = Some s'" "holders s' \<le> 1"
  shows "claimable s' \<le> claimable s + fires [e]"
proof (cases e)
  case (Fire j)
  with assms claimable_fire show ?thesis by (simp add: fires_def)
next
  case (Enter f b n off)
  with assms show ?thesis
    by (auto simp: claimable_def successes_def holders_def ready_def succeeded_def
          committed_def)
next
  case (Step i)
  with assms claimable_read show ?thesis by (simp add: fires_def)
next
  case (Signal i)
  from step_Signal[OF assms(1)[unfolded Signal]] have i: "i < length (readers s)"
    and s': "s' = s\<lparr>readers := (readers s)[i := signal (readers s ! i)]\<rparr>"
    by simp_all
  from sum_list_map_update[OF i, of succeeded "signal (readers s ! i)"]
       sum_list_map_update[OF i, of committed "signal (readers s ! i)"]
  show ?thesis by (simp add: s' claimable_def successes_def holders_def ready_def)
next
  case Unload
  with assms(1) have "step hz s Unload = Some s'" by simp
  from step_Unload[OF this] show ?thesis
    by (simp add: claimable_def successes_def holders_def ready_def)
qed

lemma fires_Cons: "fires (e # es) = fires [e] + fires es"
  by (simp add: fires_def)

lemma exclusive_holders: "exclusive hz es s \<Longrightarrow> holders s \<le> 1"
  by (cases es) simp_all

lemma claimable_exec:
  "exclusive hz es s \<Longrightarrow> exec hz es s = Some s' \<Longrightarrow> claimable s' \<le> claimable s + fires es"
proof (induction es arbitrary: s)
  case Nil
  then show ?case by simp
next
  case (Cons e es)
  then obtain s1 where s1: "step hz s e = Some s1" "exec hz es s1 = Some s'" "exclusive hz es s1"
    by (auto split: option.splits)
  have "claimable s1 \<le> claimable s + fires [e]"
    using claimable_step[OF s1(1) exclusive_holders[OF s1(3)]] .
  moreover have "claimable s' \<le> claimable s1 + fires es"
    using Cons.IH[OF s1(3) s1(2)] .
  ultimately show ?case using fires_Cons[of e es] by linarith
qed

text \<open>The bound of one extra read is reached: a lone read succeeds before any fire.\<close>

lemma initial_readiness_read_without_fire:
  "exclusive 250 one_read started \<and> map_option successes (exec 250 one_read started) = Some 1
   \<and> fires one_read = 0"
  by (simp add: scenario_defs model_defs count_defs errno_defs)

subsection \<open>What a read does with its arguments\<close>

lemma copy_to_user_test:
  "copy_to_user b test 4 =
     (if 4 \<le> length b then (test @ drop 4 b, 0) else (take (length b) test, 4 - length b))"
  by (auto simp: copy_to_user_def Let_def min_def)

lemma tracks_wake: "tracks a r \<Longrightarrow> tracks a (wake r)"
  by (auto simp: tracks_def wake_def split: prod.splits pc.splits)

lemma tracks_signal: "tracks a r \<Longrightarrow> tracks a (signal r)"
  by (auto simp: tracks_def signal_def wake_def split: prod.splits pc.splits)

lemma tracks_read:
  assumes "tracks a r" "chardev_read c r = (c', r')"
  shows "tracks a r'"
proof (cases "pc r")
  case L67
  with assms show ?thesis
    by (auto simp: tracks_def copy_to_user_test split: prod.splits if_splits)
qed (use assms in \<open>auto simp: tracks_def split: prod.splits if_splits\<close>)

lemma tracks_step:
  assumes "step hz s e = Some s'" "list_all2 tracks as (readers s)"
  shows "list_all2 tracks (as @ entered [e]) (readers s')"
proof (cases e)
  case (Fire j)
  from assms(1)[unfolded Fire] have "s' = timer_func hz j (del_timer s)" by (rule step_Fire)
  then have "readers s' = map wake (readers s)"
    by (simp add: timer_func_fields del_timer_def)
  with assms(2) Fire show ?thesis
    by (auto simp: list_all2_conv_all_nth tracks_wake)
next
  case (Enter f b n off)
  with assms show ?thesis
    by (auto intro!: list_all2_appendI simp: tracks_def)
next
  case (Step i)
  with assms(1) obtain c r where i: "i < length (readers s)" and
    cr: "chardev_read (counter s) (readers s ! i) = (c, r)" and
    s': "readers s' = (readers s)[i := r]"
    by (auto split: if_splits prod.splits)
  from assms(2) i have "tracks (as ! i) (readers s ! i)"
    by (simp add: list_all2_conv_all_nth)
  from tracks_read[OF this cr] assms(2) i Step s' show ?thesis
    by (auto simp: list_all2_conv_all_nth nth_list_update)
next
  case (Signal i)
  with assms(1) have i: "i < length (readers s)" and
    s': "readers s' = (readers s)[i := signal (readers s ! i)]"
    by (auto split: if_splits)
  with assms(2) Signal show ?thesis
    by (auto simp: list_all2_conv_all_nth nth_list_update tracks_signal)
next
  case Unload
  with assms(1) have "step hz s Unload = Some s'" by simp
  from step_Unload[OF this] have "readers s' = readers s" by simp
  with assms(2) Unload show ?thesis by simp
qed

lemma entered_Cons: "entered (e # es) = entered [e] @ entered es"
  by (cases e) simp_all

lemma tracks_exec:
  "exec hz es s = Some s' \<Longrightarrow> list_all2 tracks as (readers s) \<Longrightarrow>
   list_all2 tracks (as @ entered es) (readers s')"
proof (induction es arbitrary: s as)
  case Nil
  then show ?case by simp
next
  case (Cons e es)
  then obtain s1 where s1: "step hz s e = Some s1" "exec hz es s1 = Some s'"
    by (auto split: option.splits)
  from Cons.IH[OF s1(2) tracks_step[OF s1(1) Cons.prems(2)]]
  show ?case by (simp add: entered_Cons[of e es])
qed

text \<open>The only values \<^verbatim>\<open>chardev_read\<close> returns are 4, \<open>-EAGAIN\<close> and \<open>-EFAULT\<close>.\<close>

lemma read_return_values:
  assumes "readers s = []" "exec hz es s = Some s'" "i < length (readers s')"
    "pc (readers s' ! i) = Ret v"
  shows "v = 4 \<or> v = - EAGAIN \<or> v = - EFAULT"
proof -
  from tracks_exec[OF assms(2), of "[]"] assms(1)
  have "list_all2 tracks (entered es) (readers s')" by simp
  with assms(3) have "tracks (entered es ! i) (readers s' ! i)"
    by (simp add: list_all2_conv_all_nth)
  with assms(4) show ?thesis
    by (auto simp: tracks_def split: prod.splits)
qed

subsection \<open>After teardown\<close>

lemma step_no_timer:
  assumes "step hz s e = Some s'" "\<not> pending (read_timer s)"
  shows "fires [e] = 0 \<and> \<not> pending (read_timer s') \<and> (counter s = 0 \<longrightarrow> counter s' = 0)"
proof (cases e)
  case (Step i)
  with assms show ?thesis
    by (auto simp: fires_def Let_def split: if_splits pc.splits prod.splits)
next
  case Unload
  with assms(1) have "step hz s Unload = Some s'" by simp
  from step_Unload[OF this] assms(2) Unload show ?thesis by (simp add: fires_def)
qed (use assms in \<open>auto simp: fires_def split: if_splits\<close>)

lemma exec_no_timer:
  "exec hz es s = Some s' \<Longrightarrow> \<not> pending (read_timer s) \<Longrightarrow>
   fires es = 0 \<and> \<not> pending (read_timer s') \<and> (counter s = 0 \<longrightarrow> counter s' = 0)"
proof (induction es arbitrary: s)
  case Nil
  then show ?case by (simp add: fires_def)
next
  case (Cons e es)
  then obtain s1 where s1: "step hz s e = Some s1" "exec hz es s1 = Some s'"
    by (auto split: option.splits)
  from step_no_timer[OF s1(1) Cons.prems(2)] Cons.IH[OF s1(2)] fires_Cons[of e es]
  show ?case by simp
qed

text \<open>
  Teardown with no callback in flight: it happens with no read in flight, changes
  neither the flag nor any invocation, and leaves the timer cancelled, so that no
  schedule after it contains a timer fire.
\<close>

lemma teardown_without_callback:
  assumes "step hz s Unload = Some s'"
  shows "in_flight s = 0 \<and> \<not> pending (read_timer s') \<and> counter s' = counter s \<and>
         readers s' = readers s \<and>
         (\<forall>es s''. exec hz es s' = Some s'' \<longrightarrow> fires es = 0 \<and> \<not> pending (read_timer s''))"
proof -
  from step_Unload[OF assms]
  have a: "in_flight s = 0" "readers s' = readers s" "counter s' = counter s"
    "\<not> pending (read_timer s')"
    by simp_all
  from a(4) exec_no_timer[of hz _ s']
  have "\<forall>es s''. exec hz es s' = Some s'' \<longrightarrow> fires es = 0 \<and> \<not> pending (read_timer s'')"
    by blast
  with a show ?thesis by simp
qed

subsection \<open>Erasing the byte counts and the offsets\<close>

lemma erase_reader_fields [simp]:
  "pc (erase_reader r) = pc r" "filp (erase_reader r) = filp r" "buf (erase_reader r) = buf r"
  "sigpending (erase_reader r) = sigpending r"
  by (simp_all add: erase_reader_def)

lemma erase_wake: "wake (erase_reader r) = erase_reader (wake r)"
  by (simp add: wake_def erase_reader_def)

lemma erase_signal: "signal (erase_reader r) = erase_reader (signal r)"
  by (simp add: signal_def wake_def erase_reader_def)

lemma erase_read:
  "chardev_read c (erase_reader r) =
     (fst (chardev_read c r), erase_reader (snd (chardev_read c r)))"
  by (cases "pc r") (simp_all add: erase_reader_def split: prod.splits)

lemma erase_fields [simp]:
  "readers (erase s) = map erase_reader (readers s)" "counter (erase s) = counter s"
  "read_timer (erase s) = read_timer s" "d (erase s) = d s"
  "chardev_major (erase s) = chardev_major s" "chardev_class (erase s) = chardev_class s"
  "klog (erase s) = klog s"
  by (simp_all add: erase_def)

lemma erase_in_flight: "in_flight (erase s) = in_flight s"
proof -
  have "live \<circ> erase_reader = live"
    by (rule ext) (simp add: live_def)
  then show ?thesis by (simp add: in_flight_def)
qed

lemma erase_exit: "chardev_exit (erase s) = map_option erase (chardev_exit s)"
  by (simp add: chardev_exit_def erase_def del_timer_def kcalled_def upd_d_def Let_def
        split: option.splits)

lemma erase_step: "step hz (erase s) (erase_ev e) = map_option erase (step hz s e)"
proof (cases e)
  case (Fire j)
  then show ?thesis
    by (simp add: timer_func_def wake_up_interruptible_def add_timer_def del_timer_def
          erase_def erase_wake Let_def comp_def)
next
  case (Enter f b n off)
  then show ?thesis by (simp add: erase_def erase_reader_def)
next
  case (Step i)
  then show ?thesis
    by (simp add: erase_read erase_def map_update case_prod_beta del: chardev_read.simps)
next
  case (Signal i)
  then show ?thesis by (simp add: erase_def erase_signal map_update)
next
  case Unload
  then show ?thesis by (simp add: erase_in_flight erase_exit)
qed

lemma erase_exec: "exec hz (map erase_ev es) (erase s) = map_option erase (exec hz es s)"
proof (induction es arbitrary: s)
  case Nil
  then show ?case by simp
next
  case (Cons e es)
  then show ?case by (cases "step hz s e") (simp_all add: erase_step)
qed

section \<open>The claims\<close>

subsection \<open>C1: successful reads against timer fires\<close>

text \<open>
  C1 (amended). In every schedule of timer fires, signals and concurrent reads in which
  at no time two reads are both between their loop test having found the flag set
  (line 59) and their return, the number of reads that returned 4 since a successful
  start is at most one more than the number of timer fires; the one is the readiness
  that the start itself sets.
\<close>

theorem exclusive_reads_bounded_by_fires:
  assumes "chardev_init hz j env boot = (s0, 0)" "exclusive hz es s0" "exec hz es s0 = Some s"
  shows "successes s \<le> 1 + fires es"
proof -
  from chardev_init_ok[OF assms(1)] have "counter s0 = 1" "readers s0 = []"
    by (simp_all add: boot_def)
  then have "claimable s0 = 1"
    by (simp add: claimable_def successes_def holders_def ready_def)
  with claimable_exec[OF assms(2,3)] have "claimable s \<le> 1 + fires es" by simp
  then show ?thesis by (simp add: claimable_def)
qed

text \<open>
  Two reads asleep at the same time and woken by the same fire: the schedule is
  covered, and one of the two returns 4.
\<close>

theorem exclusive_reads_bounded_by_fires_witness:
  "chardev_init 250 1000 env0 boot = (started, 0) \<and>
   exclusive 250 two_waiters started \<and>
   map_option in_flight (exec 250 two_asleep started) = Some 2 \<and>
   map_option pcs (exec 250 two_waiters started) = Some [Ret 4, Ret 4, Asleep] \<and>
   map_option successes (exec 250 two_waiters started) = Some 2 \<and>
   fires two_waiters = 1"
  using exclusive_reads_bounded_by_fires
    [of 250 1000 env0 started two_waiters "the (exec 250 two_waiters started)"]
  by (simp add: scenario_defs model_defs count_defs errno_defs)

text \<open>
  The claim as written fails: two readers that both pass the loop test before either
  clears the flag both return 4, on the one readiness set by the start and with no
  timer fire at all.
\<close>

theorem concurrent_reads_counterexample:
  "chardev_init 250 1000 env0 boot = (started, 0) \<and>
   map_option pcs (exec 250 race started) = Some [Ret 4, Ret 4] \<and>
   map_option successes (exec 250 race started) = Some 2 \<and>
   fires race = 0"
  by (simp add: scenario_defs model_defs count_defs errno_defs)

text \<open>That schedule is the one the amended claim leaves out, and no other kind is.\<close>

lemma race_not_exclusive: "\<not> exclusive 250 race started"
  by (simp add: scenario_defs model_defs count_defs errno_defs)

subsection \<open>C2: a read with the flag ready\<close>




subsection \<open>C3: a non-blocking read with the flag empty\<close>



subsection \<open>C4: teardown\<close>

text \<open>
  C4. Teardown is to stop the timer so that no readiness event follows it. When no
  callback is in flight it does (\<open>teardown_without_callback\<close>), and as it runs with no
  read in flight there is no reader for it to wake or to leave parked. When the
  callback is in flight it does not: the module, with no file open, is unloaded between
  the kernel taking the timer off its list and line 50; \<^verbatim>\<open>del_timer\<close> finds nothing
  pending, the callback arms the timer for tick 3500, and after teardown the timer is
  pending and fires again, whereas a plain unload of the same state leaves it
  cancelled.
\<close>

theorem exit_during_callback_rearms:
  "in_flight started = 0 \<and>
   map_option (pending \<circ> read_timer) (step 250 started Unload) = Some False \<and>
   map_option (pending \<circ> read_timer) (exit_during_callback 250 2250 started) = Some True \<and>
   map_option (expires \<circ> read_timer) (exit_during_callback 250 2250 started) = Some 3500 \<and>
   map_option counter
     (Option.bind (exit_during_callback 250 2250 started) (\<lambda>s. step 250 s (Fire 3500)))
     = Some 1"
  by (simp add: scenario_defs model_defs count_defs errno_defs)

subsection \<open>C5: the timer callback\<close>

text \<open>
  C5. Every fire of the timer sets the flag to 1, arms the timer again for
  \<open>jiffies + HZ * 5\<close>, and wakes the readers asleep on the queue (each of them goes on
  to test its wait condition); this does not depend on there being any reader.
\<close>

theorem timer_func_marks_wakes_rearms:
  assumes "step hz s (Fire now) = Some s'"
  shows "counter s' = 1 \<and> pending (read_timer s') \<and>
         expires (read_timer s') = now + word_of_int (hz * 5) \<and>
         length (readers s') = length (readers s) \<and>
         (\<forall>i < length (readers s).
            pc (readers s' ! i) = (if pc (readers s ! i) = Asleep then L63 else pc (readers s ! i)))"
proof -
  from assms have "s' = timer_func hz now (del_timer s)" by (rule step_Fire)
  then show ?thesis
    by (simp add: timer_func_fields del_timer_def wake_def)
qed

theorem timer_func_marks_wakes_rearms_witness:
  "map_option pcs (step 250 parked (Fire 2250)) = Some [Ret 4, L63] \<and>
   pcs parked = [Ret 4, Asleep] \<and>
   map_option counter (step 250 parked (Fire 2250)) = Some 1 \<and>
   map_option (expires \<circ> read_timer) (step 250 parked (Fire 2250)) = Some 3500 \<and>
   map_option (pending \<circ> read_timer) (step 250 started (Fire 2250)) = Some True"
  using timer_func_marks_wakes_rearms [of 250 parked 2250 "timer_func 250 2250 (del_timer parked)"]
  by (simp add: scenario_defs model_defs count_defs errno_defs)

subsection \<open>C6: the values and the transitions of the flag\<close>

text \<open>
  C6. A successful start leaves the flag at 1. In every state that a schedule reaches
  from there the flag is 0 or 1, and an event that changes it is either a timer fire,
  taking it from 0 to 1, or the last action of a read that then returns 4, taking it
  from 1 to 0.
\<close>

theorem readiness_flag_two_states:
  assumes "chardev_init hz j env boot = (s0, 0)" "exec hz es s0 = Some s"
  shows "counter s0 = 1 \<and> (counter s = 0 \<or> counter s = 1) \<and>
         (\<forall>e s'. step hz s e = Some s' \<and> counter s' \<noteq> counter s \<longrightarrow>
            (\<exists>t. e = Fire t \<and> counter s = 0 \<and> counter s' = 1) \<or>
            (\<exists>i. e = Step i \<and> counter s = 1 \<and> counter s' = 0 \<and>
                 pc (readers s ! i) = L70 \<and> pc (readers s' ! i) = Ret 4))"
proof -
  from chardev_init_ok[OF assms(1)] have c0: "counter s0 = 1" by simp
  with exec_counter01[OF assms(2)] have c: "counter s = 0 \<or> counter s = 1" by simp
  from c0 c step_counter_change[of hz s] show ?thesis by blast
qed

theorem readiness_flag_two_states_witness:
  "chardev_init 250 1000 env0 boot = (started, 0) \<and>
   counter started = 1 \<and>
   map_option counter (exec 250 one_read started) = Some 0 \<and>
   map_option counter (exec 250 (one_read @ [Fire 2250]) started) = Some 1"
  using readiness_flag_two_states
    [of 250 1000 env0 started one_read "the (exec 250 one_read started)"]
  by (simp add: scenario_defs model_defs count_defs errno_defs)

subsection \<open>C7: ioctl\<close>

text \<open>
  C7. Every \<^verbatim>\<open>ioctl\<close> command on the device returns \<open>-ENOTTY\<close> and leaves the
  device state as it was; so does the consumer's \<^verbatim>\<open>PROCESS_ID\<close> registration,
  whatever the command number and the process id are: nothing is registered.
\<close>

theorem chardev_ioctl_not_supported:
  "chardev_ioctl s f cmd arg = (s, - ENOTTY) \<and>
   client_register s f process_id pid = (s, - ENOTTY) \<and> - ENOTTY = - 25"
  by (simp add: chardev_ioctl_def client_register_def ENOTTY_def)

theorem chardev_ioctl_not_supported_witness:
  "chardev_ioctl started blocking 0x40046b01 4242 = (started, - 25) \<and>
   client_register started blocking 0x40046b01 4242 = (started, - 25)"
  using chardev_ioctl_not_supported [of started blocking "0x40046b01" 4242 "0x40046b01" 4242]
  by simp

subsection \<open>C8: write\<close>

text \<open>
  C8. Every \<^verbatim>\<open>write()\<close> returns \<open>-EPERM\<close>, whatever the session's flags, the
  caller's buffer, the byte count, the offset and the device state are, and the device
  state after the call is the state before it.
\<close>

theorem chardev_write_not_permitted:
  "chardev_write s f b n off = (s, - EPERM) \<and> - EPERM = - 1"
  by (simp add: chardev_write_def EPERM_def)

theorem chardev_write_not_permitted_witness:
  "chardev_write parked nonblocking buf5 5 0 = (parked, - 1)"
  using chardev_write_not_permitted [of parked nonblocking buf5 5 0]
  by simp

subsection \<open>C9: a read whose copy faults\<close>

text \<open>
  C9. When the copy to the caller's buffer fails (fewer than 4 writable bytes), the
  read returns \<open>-EFAULT\<close> and the flag is still 1; a following read with a good
  buffer then returns 4 on that same readiness.
\<close>

theorem read_copy_fault_keeps_readiness:
  assumes "counter s = 1" "length b < 4" "4 \<le> length b'"
  shows "\<exists>s1 s2.
           exec hz [Enter f b n off, Step (length (readers s)), Step (length (readers s))] s
             = Some s1 \<and>
           pc (readers s1 ! length (readers s)) = Ret (- EFAULT) \<and>
           counter s1 = 1 \<and>
           exec hz [Enter f' b' n' off', Step (Suc (length (readers s))),
                    Step (Suc (length (readers s))), Step (Suc (length (readers s)))] s1
             = Some s2 \<and>
           pc (readers s2 ! Suc (length (readers s))) = Ret 4 \<and>
           counter s2 = 0"
  using assms by (simp add: runnable_def copy_to_user_test nth_append)

theorem read_copy_fault_keeps_readiness_witness:
  "counter started = 1 \<and> length [0, 0 :: 8 word] < 4 \<and> 4 \<le> length buf5 \<and>
   map_option pcs (exec 250 [Enter blocking [0, 0] 4 0, Step 0, Step 0] started)
     = Some [Ret (- 14)] \<and>
   map_option counter (exec 250 [Enter blocking [0, 0] 4 0, Step 0, Step 0] started)
     = Some 1 \<and>
   map_option pcs (exec 250 [Enter blocking [0, 0] 4 0, Step 0, Step 0,
                             Enter blocking buf5 5 0, Step 1, Step 1, Step 1] started)
     = Some [Ret (- 14), Ret 4]"
  using read_copy_fault_keeps_readiness [of started "[0, 0]" buf5 250 blocking 4 0 blocking 5 0]
  by (simp add: scenario_defs model_defs count_defs errno_defs)

subsection \<open>C10: the byte count and the offset\<close>

text \<open>
  C10. A read ignores the byte count and the offset. First, replacing every count and
  every offset of a schedule by 0 changes nothing else in its execution: whether each
  event can happen, the flag, the timer, and every invocation's program point, return
  value and buffer are the same. Second, a read entered with the flag at 1 and a buffer
  of at least 4 writable bytes returns 4 with the 4 bytes of \<^verbatim>\<open>"test"\<close> written,
  whatever count and offset it was given. Third, in every schedule every invocation
  ends with the count and the offset it was entered with, and every invocation that
  returned a value that is not negative returned 4 and left the buffer with those 4
  bytes in front of what it held from the fifth byte on.
\<close>

theorem read_ignores_count_and_offset:
  "exec hz (map erase_ev es) (erase s) = map_option erase (exec hz es s) \<and>
   (counter s = 1 \<and> 4 \<le> length b \<longrightarrow>
      exec hz [Enter f b n off, Step (length (readers s)), Step (length (readers s)),
               Step (length (readers s))] s =
        Some (s\<lparr>counter := 0,
                readers := readers s @
                  [\<lparr>pc = Ret 4, filp = f, buf = test @ drop 4 b, count = n, offp = off,
                    sigpending = False\<rparr>]\<rparr>)) \<and>
   (readers s = [] \<and> exec hz es s = Some s' \<and> i < length (readers s') \<and>
    entered es ! i = (f', b', n', off') \<longrightarrow>
      count (readers s' ! i) = n' \<and> offp (readers s' ! i) = off' \<and>
      (\<forall>v. pc (readers s' ! i) = Ret v \<and> 0 \<le> v \<longrightarrow>
           v = 4 \<and> 4 \<le> length b' \<and> buf (readers s' ! i) = test @ drop 4 b'))"
proof (intro conjI impI)
  show "exec hz (map erase_ev es) (erase s) = map_option erase (exec hz es s)"
    by (rule erase_exec)
next
  assume "counter s = 1 \<and> 4 \<le> length b"
  then show "exec hz [Enter f b n off, Step (length (readers s)), Step (length (readers s)),
               Step (length (readers s))] s =
        Some (s\<lparr>counter := 0,
                readers := readers s @
                  [\<lparr>pc = Ret 4, filp = f, buf = test @ drop 4 b, count = n, offp = off,
                    sigpending = False\<rparr>]\<rparr>)"
    by (simp add: runnable_def copy_to_user_test)
next
  assume a: "readers s = [] \<and> exec hz es s = Some s' \<and> i < length (readers s') \<and>
    entered es ! i = (f', b', n', off')"
  from a tracks_exec[of hz es s s' "[]"]
  have "list_all2 tracks (entered es) (readers s')" by simp
  with a have t: "tracks (f', b', n', off') (readers s' ! i)"
    by (auto simp: list_all2_conv_all_nth)
  from t show "count (readers s' ! i) = n'"
    by (simp add: tracks_def)
  from t show "offp (readers s' ! i) = off'"
    by (simp add: tracks_def)
  from t show "\<forall>v. pc (readers s' ! i) = Ret v \<and> 0 \<le> v \<longrightarrow>
           v = 4 \<and> 4 \<le> length b' \<and> buf (readers s' ! i) = test @ drop 4 b'"
    by (auto simp: tracks_def EAGAIN_def EFAULT_def split: pc.splits)
qed

text \<open>
  A request for one byte and a request for 4096 bytes, both at offset 7 and into the
  same 5-byte buffer: both return 4 and write the same 4 bytes, and run as the requests
  with count and offset 0 do.
\<close>

theorem read_ignores_count_and_offset_witness:
  "counter started = 1 \<and> 4 \<le> length buf5 \<and> readers started = [] \<and>
   entered short_request ! 0 = (blocking, buf5, 1, 7) \<and>
   map_option pcs (exec 250 short_request started) = Some [Ret 4] \<and>
   map_option pcs (exec 250 long_request started) = Some [Ret 4] \<and>
   map_option (map count \<circ> readers) (exec 250 short_request started) = Some [1] \<and>
   map_option (map count \<circ> readers) (exec 250 long_request started) = Some [4096] \<and>
   map_option (map offp \<circ> readers) (exec 250 short_request started) = Some [7] \<and>
   map_option (map buf \<circ> readers) (exec 250 short_request started)
     = Some [[0x74, 0x65, 0x73, 0x74, 0]] \<and>
   map_option (map buf \<circ> readers) (exec 250 long_request started)
     = Some [[0x74, 0x65, 0x73, 0x74, 0]] \<and>
   map_option erase (exec 250 short_request started)
     = exec 250 [Enter blocking buf5 0 0, Step 0, Step 0, Step 0] (erase started)"
  using read_ignores_count_and_offset
    [of 250 short_request started buf5 nonblocking 4096 7
        "the (exec 250 short_request started)" 0 blocking buf5 1 7]
  by (simp add: scenario_defs model_defs count_defs errno_defs erase_def erase_reader_def)

end
